theory Spec2Isabelle
  imports
    Complex_Main
    "HOL-Library.Multiset"
    "HOL-Library.Char_ord"
    "HOL-Library.List_Lexorder"
    "HOL-Library.Product_Lexorder"
begin

section \<open>Bias directions in a word embedding: the notebook's computations\<close>

text \<open>
  The repository is one notebook, \<^verbatim>\<open>tutorial_example1.ipynb\<close>. Its computations are
  \<^item> the racial direction (cell "racial direction"):
    \<^verbatim>\<open>vs = [sum(E_gnews.v(w) for w in names) for names in (names_group2, names_group1)]\<close>,
    \<^verbatim>\<open>vs = [v / np.linalg.norm(v) for v in vs]\<close>,
    \<^verbatim>\<open>v_racial = vs[1] - vs[0]\<close>,
    \<^verbatim>\<open>v_racial = v_racial / np.linalg.norm(v_racial)\<close>;
  \<^item> the profession analysis:
    \<^verbatim>\<open>sp = sorted([(E_gnews.v(w).dot(v_gender), w) for w in profession_words])\<close>;
  \<^item> calls into the embedding class (\<^verbatim>\<open>E.v\<close>, \<^verbatim>\<open>E.diff\<close>,
    \<^verbatim>\<open>E.best_analogies_dist_thresh\<close>), whose code is not among the sources.

  Numbers: numpy's floating-point components are modelled by exact reals, so rounding is
  not part of the model. The one floating-point effect the notebook's code can meet without
  any rounding, a division \<open>0 / 0.0\<close> (numpy answers \<open>nan\<close> with a warning, it raises
  nothing), is kept: see \<open>npval\<close> below.
\<close>

subsection \<open>Vectors\<close>

type_synonym vec = "real list"

text \<open>\<^verbatim>\<open>np.linalg.norm(v)\<close> of a one-dimensional array: the square root of \<open>v . v\<close>.\<close>

definition l2norm :: "vec \<Rightarrow> real" where
  "l2norm v = sqrt (\<Sum>x\<leftarrow>v. x * x)"

datatype error =
    UnknownWordError string
  | IndexOutOfRangeError
  | DimensionMismatchError
  | EmptyGroupError

subsection \<open>The vector table\<close>

text \<open>
  Modelled from the spec: the embedding class (\<^verbatim>\<open>debiaswe.we.WordEmbedding\<close>) is imported by
  the notebook and is not among the sources. The spec's VectorTable is an ordered sequence of
  distinct words (the index of a word is its position) and one vector of a fixed dimension
  per word, aligned by index; \<open>vector_of\<close> fails with \<open>UnknownWordError\<close> on a word that is
  not in the vocabulary, \<open>word_at\<close> fails with \<open>IndexOutOfRangeError\<close> on an invalid index,
  \<open>size\<close> is the vocabulary count.
\<close>

record VectorTable =
  vocabulary :: "string list"
  embedding :: "vec list"
  dimension :: nat

text \<open>The spec's invariants of the data model.\<close>

definition table_inv :: "VectorTable \<Rightarrow> bool" where
  "table_inv T \<longleftrightarrow>
     distinct (vocabulary T) \<and>
     length (embedding T) = length (vocabulary T) \<and>
     (\<forall>v \<in> set (embedding T). length v = dimension T)"

fun index_of :: "string list \<Rightarrow> string \<Rightarrow> nat option" where
  "index_of [] w = None"
| "index_of (x # xs) w = (if x = w then Some 0 else map_option Suc (index_of xs w))"

definition word_at :: "VectorTable \<Rightarrow> nat \<Rightarrow> error + string" where
  "word_at T i =
     (if i < length (vocabulary T) then Inr (vocabulary T ! i) else Inl IndexOutOfRangeError)"

definition size_of :: "VectorTable \<Rightarrow> nat" where
  "size_of T = length (vocabulary T)"

definition vector_of :: "VectorTable \<Rightarrow> string \<Rightarrow> error + vec" where
  "vector_of T w =
     (case index_of (vocabulary T) w of
        None \<Rightarrow> Inl (UnknownWordError w)
      | Some i \<Rightarrow>
          if i < length (embedding T) then Inr (embedding T ! i)
          else Inl IndexOutOfRangeError)"

subsection \<open>The profession analysis: ranking by projection\<close>

text \<open>
  \<^verbatim>\<open>E_gnews.v(w).dot(v_gender)\<close>: numpy's \<open>dot\<close> of two one-dimensional arrays raises
  (shapes not aligned) unless they have the same length.
\<close>

definition np_dot :: "vec \<Rightarrow> vec \<Rightarrow> error + real" where
  "np_dot u v =
     (if length u = length v then Inr (\<Sum>(x, y)\<leftarrow>zip u v. x * y)
      else Inl DimensionMismatchError)"

text \<open>
  The list comprehension \<^verbatim>\<open>[(E_gnews.v(w).dot(v_gender), w) for w in profession_words]\<close>:
  the tuples (score, word) in the order of the candidates; the first failing lookup or
  product aborts it.
\<close>

fun scored :: "VectorTable \<Rightarrow> vec \<Rightarrow> string list \<Rightarrow> error + (real \<times> string) list" where
  "scored T d [] = Inr []"
| "scored T d (w # ws) =
     (case vector_of T w of
        Inl e \<Rightarrow> Inl e
      | Inr v \<Rightarrow>
          (case np_dot v d of
             Inl e \<Rightarrow> Inl e
           | Inr s \<Rightarrow>
               (case scored T d ws of
                  Inl e \<Rightarrow> Inl e
                | Inr r \<Rightarrow> Inr ((s, w) # r))))"

text \<open>
  \<^verbatim>\<open>sorted(...)\<close> of that list. Python compares tuples lexicographically (the score first,
  then the word, strings by their characters' codes), which is the order of
  \<open>real \<times> string\<close> here; \<open>sort\<close> is the stable insertion sort of the library.
\<close>

definition rank_by_projection ::
    "VectorTable \<Rightarrow> vec \<Rightarrow> string list \<Rightarrow> error + (real \<times> string) list" where
  "rank_by_projection T d ws =
     (case scored T d ws of Inl e \<Rightarrow> Inl e | Inr xs \<Rightarrow> Inr (sort xs))"

subsection \<open>The racial direction: a direction from two groups of words\<close>

text \<open>
  The values the cell computes with. \<open>Scalar\<close> is a Python or numpy number, \<open>Array\<close> a
  one-dimensional numpy array. \<open>NaN\<close> stands for the result of a division by a zero norm:
  numpy does not raise there, it gives \<open>nan\<close> (a scalar \<open>nan\<close>, or an array whose every
  component is \<open>nan\<close>), and every later operation on it gives \<open>nan\<close> again.
\<close>

datatype npval = NaN | Scalar real | Array vec

text \<open>
  \<^verbatim>\<open>acc + row\<close>, the step of Python's \<open>sum\<close>: a number is added to every component; two
  arrays are added componentwise when their lengths agree, a one-element array is
  broadcast against a longer one, and any other pair of lengths raises.
\<close>

fun np_add :: "npval \<Rightarrow> vec \<Rightarrow> error + npval" where
  "np_add NaN v = Inr NaN"
| "np_add (Scalar c) v = Inr (Array (map (\<lambda>x. c + x) v))"
| "np_add (Array u) v =
     (if length u = length v then Inr (Array (map2 (+) u v))
      else if length u = 1 then Inr (Array (map (\<lambda>x. hd u + x) v))
      else if length v = 1 then Inr (Array (map (\<lambda>x. x + hd v) u))
      else Inl DimensionMismatchError)"

text \<open>
  \<^verbatim>\<open>sum(E_gnews.v(w) for w in names)\<close>: Python's \<open>sum\<close> starts from the integer \<open>0\<close> and adds
  the items of the generator one by one, so each word is looked up just before its vector is
  added, and the sum of no vectors is the number \<open>0\<close>.
\<close>

fun sum_from :: "VectorTable \<Rightarrow> npval \<Rightarrow> string list \<Rightarrow> error + npval" where
  "sum_from T acc [] = Inr acc"
| "sum_from T acc (w # ws) =
     (case vector_of T w of
        Inl e \<Rightarrow> Inl e
      | Inr v \<Rightarrow>
          (case np_add acc v of
             Inl e \<Rightarrow> Inl e
           | Inr acc' \<Rightarrow> sum_from T acc' ws))"

definition group_sum :: "VectorTable \<Rightarrow> string list \<Rightarrow> error + npval" where
  "group_sum T names = sum_from T (Scalar 0) names"

text \<open>
  \<^verbatim>\<open>v / np.linalg.norm(v)\<close>. The norm of an array is zero only when every component is
  zero, and then each component is \<open>0 / 0.0\<close>, that is \<open>nan\<close> (an array with no component
  stays empty); the norm of a number is its absolute value.
\<close>

fun unit :: "npval \<Rightarrow> npval" where
  "unit NaN = NaN"
| "unit (Scalar x) = (if x = 0 then NaN else Scalar (x / \<bar>x\<bar>))"
| "unit (Array v) =
     (if l2norm v = 0 \<and> v \<noteq> [] then NaN else Array (map (\<lambda>x. x / l2norm v) v))"

text \<open>\<^verbatim>\<open>a - b\<close> on these values, with numpy's broadcasting.\<close>

fun np_sub :: "npval \<Rightarrow> npval \<Rightarrow> error + npval" where
  "np_sub NaN b = Inr NaN"
| "np_sub a NaN = Inr NaN"
| "np_sub (Scalar a) (Scalar b) = Inr (Scalar (a - b))"
| "np_sub (Scalar a) (Array v) = Inr (Array (map (\<lambda>x. a - x) v))"
| "np_sub (Array u) (Scalar b) = Inr (Array (map (\<lambda>x. x - b) u))"
| "np_sub (Array u) (Array v) =
     (if length u = length v then Inr (Array (map2 (-) u v))
      else if length u = 1 then Inr (Array (map (\<lambda>x. hd u - x) v))
      else if length v = 1 then Inr (Array (map (\<lambda>x. x - hd v) u))
      else Inl DimensionMismatchError)"

text \<open>
  The first two lines of the cell, with \<open>g_pos\<close> for \<^verbatim>\<open>names_group1\<close> and \<open>g_neg\<close> for
  \<^verbatim>\<open>names_group2\<close>: the list \<^verbatim>\<open>vs\<close> holds the sum of \<open>g_neg\<close> first and the sum of \<open>g_pos\<close>
  second (both sums are computed before either is normalized), then each is divided by
  its norm.
\<close>

definition unit_centroids ::
    "VectorTable \<Rightarrow> string list \<Rightarrow> string list \<Rightarrow> error + (npval \<times> npval)" where
  "unit_centroids T g_pos g_neg =
     (case group_sum T g_neg of
        Inl e \<Rightarrow> Inl e
      | Inr s0 \<Rightarrow>
          (case group_sum T g_pos of
             Inl e \<Rightarrow> Inl e
           | Inr s1 \<Rightarrow> Inr (unit s0, unit s1)))"

text \<open>
  The last two lines: \<^verbatim>\<open>v_racial = vs[1] - vs[0]\<close>, then
  \<^verbatim>\<open>v_racial / np.linalg.norm(v_racial)\<close>. The cell has no check for an empty group and
  none for a zero norm.
\<close>

definition from_groups :: "VectorTable \<Rightarrow> string list \<Rightarrow> string list \<Rightarrow> error + npval" where
  "from_groups T g_pos g_neg =
     (case unit_centroids T g_pos g_neg of
        Inl e \<Rightarrow> Inl e
      | Inr (v0, v1) \<Rightarrow>
          (case np_sub v1 v0 of
             Inl e \<Rightarrow> Inl e
           | Inr d \<Rightarrow> Inr (unit d)))"

text \<open>\<^verbatim>\<open>-v\<close> and \<^verbatim>\<open>c * v\<close> on these values.\<close>

fun np_neg :: "npval \<Rightarrow> npval" where
  "np_neg NaN = NaN"
| "np_neg (Scalar x) = Scalar (- x)"
| "np_neg (Array v) = Array (map uminus v)"

fun np_scale :: "real \<Rightarrow> npval \<Rightarrow> npval" where
  "np_scale c NaN = NaN"
| "np_scale c (Scalar x) = Scalar (c * x)"
| "np_scale c (Array v) = Array (map ((*) c) v)"

subsection \<open>The spec's description of the direction of two groups\<close>

text \<open>
  The computation as the spec words it, on the member vectors of the two groups: sum the
  member vectors of each group, normalize each sum to unit length, subtract the unit
  centroid of the negative group from that of the positive group, and normalize the
  difference. These definitions follow the spec, not the notebook; the notebook's cell is
  \<open>from_groups\<close> above, and the two are compared below.
\<close>

definition vadd :: "vec \<Rightarrow> vec \<Rightarrow> vec" where
  "vadd u v = map2 (+) u v"

definition vsub :: "vec \<Rightarrow> vec \<Rightarrow> vec" where
  "vsub u v = map2 (-) u v"

fun spec_sum_vectors :: "vec list \<Rightarrow> vec" where
  "spec_sum_vectors [] = []"
| "spec_sum_vectors [v] = v"
| "spec_sum_vectors (v # w # vs) = vadd v (spec_sum_vectors (w # vs))"

definition spec_normalize :: "vec \<Rightarrow> vec" where
  "spec_normalize v = map (\<lambda>x. x / l2norm v) v"

definition spec_from_groups :: "vec list \<Rightarrow> vec list \<Rightarrow> vec" where
  "spec_from_groups vs_pos vs_neg =
     spec_normalize
       (vsub (spec_normalize (spec_sum_vectors vs_pos))
             (spec_normalize (spec_sum_vectors vs_neg)))"

text \<open>The member vectors of a group: the lookup of each word, in order.\<close>

fun member_vectors :: "VectorTable \<Rightarrow> string list \<Rightarrow> error + vec list" where
  "member_vectors T [] = Inr []"
| "member_vectors T (w # ws) =
     (case vector_of T w of
        Inl e \<Rightarrow> Inl e
      | Inr v \<Rightarrow>
          (case member_vectors T ws of
             Inl e \<Rightarrow> Inl e
           | Inr vs \<Rightarrow> Inr (v # vs)))"

subsection \<open>The direction of a word pair\<close>

text \<open>
  Modelled from the spec: \<^verbatim>\<open>E_gnews.diff\<close> is a method of the embedding class, which is not
  among the sources. The spec's \<open>from_pair\<close> computes \<open>vector(word_pos) - vector(word_neg)\<close>
  and returns it as it is (the unnormalized mode) or normalized to unit length; the flag
  chooses the mode. The spec names no error for a zero difference; the normalized mode
  divides as the notebook's own cell does.
\<close>

definition from_pair :: "VectorTable \<Rightarrow> bool \<Rightarrow> string \<Rightarrow> string \<Rightarrow> error + npval" where
  "from_pair T normalized word_pos word_neg =
     (case vector_of T word_pos of
        Inl e \<Rightarrow> Inl e
      | Inr a \<Rightarrow>
          (case vector_of T word_neg of
             Inl e \<Rightarrow> Inl e
           | Inr b \<Rightarrow>
               (case np_sub (Array a) (Array b) of
                  Inl e \<Rightarrow> Inl e
                | Inr d \<Rightarrow> Inr (if normalized then unit d else d))))"

subsection \<open>The analogy finder\<close>

text \<open>
  Modelled from the spec: \<^verbatim>\<open>E.best_analogies_dist_thresh\<close> is a method of the embedding
  class, which is not among the sources; the notebook only calls it and prints the pairs.
  The spec's algorithm: (1) the candidate pool is the \<open>K\<close> most frequent words, that is the
  first \<open>K\<close> of the vocabulary; (2) for every unordered pair of different words \<open>a\<close>, \<open>b\<close>
  of the pool, \<open>diff = vector(a) - vector(b)\<close>; (3) \<open>cos_sim\<close> is the cosine similarity of
  \<open>diff\<close> and the reference direction, \<open>magnitude_gap\<close> the absolute difference of their
  norms; (4) the pair is accepted if \<open>cos_sim\<close> exceeds the similarity threshold and
  \<open>magnitude_gap\<close> is below the distance threshold; (5) each unordered pair appears once,
  oriented so that its difference agrees in sign with the reference direction; (6) the
  output is sorted by descending \<open>cos_sim\<close>, then ascending \<open>magnitude_gap\<close>. A reference
  direction of the wrong dimension is a \<open>DimensionMismatchError\<close>.

  The reading taken where the spec leaves a choice: an unordered pair is enumerated once, in
  the order of the pool; it is oriented first (exchanged when the product of its difference
  with the reference direction is negative), and the thresholds and the sort are those of
  the oriented difference.
\<close>

definition dot :: "vec \<Rightarrow> vec \<Rightarrow> real" where
  "dot u v = (\<Sum>(x, y)\<leftarrow>zip u v. x * y)"

definition cosine_similarity :: "vec \<Rightarrow> vec \<Rightarrow> real" where
  "cosine_similarity d r = dot d r / (l2norm d * l2norm r)"

definition magnitude_gap :: "vec \<Rightarrow> vec \<Rightarrow> real" where
  "magnitude_gap d r = \<bar>l2norm d - l2norm r\<bar>"

type_synonym AnalogyPair = "string \<times> string \<times> vec"

definition candidate_pool :: "VectorTable \<Rightarrow> nat \<Rightarrow> (string \<times> vec) list" where
  "candidate_pool T K = take K (zip (vocabulary T) (embedding T))"

fun unordered_pairs :: "'a list \<Rightarrow> ('a \<times> 'a) list" where
  "unordered_pairs [] = []"
| "unordered_pairs (x # xs) = map (Pair x) xs @ unordered_pairs xs"

definition different_words :: "(string \<times> vec) \<times> (string \<times> vec) \<Rightarrow> bool" where
  "different_words p = (fst (fst p) \<noteq> fst (snd p))"

definition orient :: "vec \<Rightarrow> (string \<times> vec) \<times> (string \<times> vec) \<Rightarrow> AnalogyPair" where
  "orient r p =
     (case p of ((a, va), (b, vb)) \<Rightarrow>
        if dot (vsub va vb) r < 0 then (b, a, vsub vb va) else (a, b, vsub va vb))"

definition accepted :: "vec \<Rightarrow> real \<Rightarrow> real \<Rightarrow> AnalogyPair \<Rightarrow> bool" where
  "accepted r sim_thresh dist_thresh t =
     (case t of (a, b, d) \<Rightarrow>
        sim_thresh < cosine_similarity d r \<and> magnitude_gap d r < dist_thresh)"

definition analogy_key :: "vec \<Rightarrow> AnalogyPair \<Rightarrow> real \<times> real" where
  "analogy_key r t = (case t of (a, b, d) \<Rightarrow> (- cosine_similarity d r, magnitude_gap d r))"

definition analogy_finder ::
    "VectorTable \<Rightarrow> vec \<Rightarrow> nat \<Rightarrow> real \<Rightarrow> real \<Rightarrow> error + AnalogyPair list" where
  "analogy_finder T r K sim_thresh dist_thresh =
     (if length r \<noteq> dimension T then Inl DimensionMismatchError
      else Inr (sort_key (analogy_key r)
             (filter (accepted r sim_thresh dist_thresh)
                (map (orient r)
                   (filter different_words (unordered_pairs (candidate_pool T K)))))))"

text \<open>The vocabulary of the spec's scenarios.\<close>

definition demo_table :: VectorTable where
  "demo_table =
     \<lparr>vocabulary = [''he'', ''she'', ''king'', ''queen''],
      embedding = [[1, 0], [0, 1], [1, 1], [0, 2]],
      dimension = 2\<rparr>"

text \<open>
  The table whose vectors of the words \<open>ws\<close> are multiplied by \<open>c\<close>, every other vector
  kept: an input of the cells above, used to state what scaling a group's vectors does.
\<close>

definition scale_words :: "real \<Rightarrow> string list \<Rightarrow> VectorTable \<Rightarrow> VectorTable" where
  "scale_words c ws T =
     T\<lparr>embedding :=
          map (\<lambda>(w, v). if w \<in> set ws then map ((*) c) v else v)
            (zip (vocabulary T) (embedding T))\<rparr>"

text \<open>A vocabulary of two words, for groups that share a word.\<close>

definition overlap_table :: VectorTable where
  "overlap_table =
     \<lparr>vocabulary = [''a'', ''b''], embedding = [[1, 0], [6, 24]], dimension = 2\<rparr>"

section \<open>Properties\<close>

subsection \<open>The vector table\<close>

lemma index_of_bound: "index_of ws w = Some i \<Longrightarrow> i < length ws \<and> ws ! i = w"
  by (induction ws arbitrary: i) (auto split: if_splits)

lemma index_of_mem: "w \<in> set ws \<Longrightarrow> \<exists>i. index_of ws w = Some i"
  by (induction ws) auto

lemma index_of_nth: "distinct ws \<Longrightarrow> i < length ws \<Longrightarrow> index_of ws (ws ! i) = Some i"
proof (induction ws arbitrary: i)
  case Nil
  then show ?case by simp
next
  case (Cons x xs)
  show ?case
  proof (cases i)
    case 0
    then show ?thesis by simp
  next
    case (Suc j)
    with Cons.prems have "j < length xs" and "xs ! j \<noteq> x"
      by auto
    with Cons Suc show ?thesis by auto
  qed
qed

lemma table_inv_demo: "table_inv demo_table"
  by (simp add: table_inv_def demo_table_def)

lemmas demo_eval = demo_table_def vector_of_def l2norm_def

lemmas rank_eval = np_dot_def rank_by_projection_def

lemmas groups_eval = group_sum_def unit_centroids_def from_groups_def

lemma index_roundtrip_distinct:
  assumes "\<forall>i < length ws. index_of ws (ws ! i) = Some i"
  shows "distinct ws"
proof -
  have "ws ! i \<noteq> ws ! j" if "i < length ws" "j < length ws" "i \<noteq> j" for i j
  proof
    assume "ws ! i = ws ! j"
    with assms that(1,2) have "Some i = Some j" by metis
    with that(3) show False by simp
  qed
  then show ?thesis by (simp add: distinct_conv_nth)
qed

text \<open>
  Claim C8. For every word \<open>w\<close> of the vocabulary, looking up its index and then the word at
  that index gives \<open>w\<close> back. The other round trip, from a valid index to its word and back
  to the index, holds at every index exactly when the words of the vocabulary are distinct,
  which is the invariant of the data model: then the two lookups are mutual inverses.
\<close>

theorem C8_index_word_roundtrip:
  "(\<forall>w \<in> set (vocabulary T).
      \<exists>i. index_of (vocabulary T) w = Some i \<and> word_at T i = Inr w) \<and>
   ((\<forall>i < size_of T. \<exists>w. word_at T i = Inr w \<and> index_of (vocabulary T) w = Some i)
      \<longleftrightarrow> distinct (vocabulary T))"
proof (intro conjI ballI iffI)
  fix w assume "w \<in> set (vocabulary T)"
  then obtain i where i: "index_of (vocabulary T) w = Some i"
    using index_of_mem by blast
  with index_of_bound [OF i] show "\<exists>i. index_of (vocabulary T) w = Some i \<and> word_at T i = Inr w"
    by (simp add: word_at_def)
next
  assume "\<forall>i < size_of T. \<exists>w. word_at T i = Inr w \<and> index_of (vocabulary T) w = Some i"
  then have "\<forall>i < length (vocabulary T). index_of (vocabulary T) (vocabulary T ! i) = Some i"
    by (simp add: size_of_def word_at_def)
  then show "distinct (vocabulary T)"
    by (rule index_roundtrip_distinct)
next
  assume "distinct (vocabulary T)"
  then show "\<forall>i < size_of T. \<exists>w. word_at T i = Inr w \<and> index_of (vocabulary T) w = Some i"
    by (simp add: size_of_def word_at_def index_of_nth)
qed

theorem C8_index_word_roundtrip_witness:
  "index_of (vocabulary demo_table) ''king'' = Some 2 \<and>
   word_at demo_table 2 = Inr ''king'' \<and>
   index_of (vocabulary demo_table) (vocabulary demo_table ! 3) = Some 3"
proof -
  have d: "distinct (vocabulary demo_table)"
    by (simp add: demo_table_def)
  have "''king'' \<in> set (vocabulary demo_table)"
    by (simp add: demo_table_def)
  with C8_index_word_roundtrip [of demo_table]
  obtain i where "index_of (vocabulary demo_table) ''king'' = Some i"
    and "word_at demo_table i = Inr ''king''"
    by blast
  moreover have "index_of (vocabulary demo_table) ''king'' = Some 2"
    by (simp add: demo_table_def)
  moreover have "3 < size_of demo_table"
    by (simp add: size_of_def demo_table_def)
  with C8_index_word_roundtrip [of demo_table] d
  have "\<exists>w. word_at demo_table 3 = Inr w \<and> index_of (vocabulary demo_table) w = Some 3"
    by blast
  then have "index_of (vocabulary demo_table) (vocabulary demo_table ! 3) = Some 3"
    by (auto simp: word_at_def split: if_splits)
  ultimately show ?thesis by simp
qed

subsection \<open>Ranking by projection\<close>

lemma scored_words: "scored T d ws = Inr xs \<Longrightarrow> map snd xs = ws"
  by (induction ws arbitrary: xs) (auto split: sum.splits)

lemma vector_of_mem:
  assumes "table_inv T" and "w \<in> set (vocabulary T)"
  shows "\<exists>v. vector_of T w = Inr v \<and> length v = dimension T"
proof -
  from assms(2) obtain i where i: "index_of (vocabulary T) w = Some i"
    using index_of_mem by blast
  from index_of_bound [OF i] assms(1) have "i < length (embedding T)"
    by (simp add: table_inv_def)
  moreover from this assms(1) have "length (embedding T ! i) = dimension T"
    by (simp add: table_inv_def)
  ultimately show ?thesis using i by (simp add: vector_of_def)
qed

lemma scored_total:
  assumes "table_inv T" and "length d = dimension T"
  shows "set ws \<subseteq> set (vocabulary T) \<Longrightarrow> \<exists>xs. scored T d ws = Inr xs"
proof (induction ws)
  case Nil
  then show ?case by simp
next
  case (Cons w ws)
  then obtain xs where xs: "scored T d ws = Inr xs" by auto
  from Cons.prems assms(1) obtain v where "vector_of T w = Inr v" "length v = dimension T"
    using vector_of_mem by force
  with xs assms(2) show ?case by (simp add: np_dot_def)
qed

lemma sorted_lex_fst:
  fixes xs :: "(real \<times> string) list"
  shows "sorted xs \<Longrightarrow> sorted (map fst xs)"
  by (induction xs) (auto simp: less_eq_prod_def)

lemma scored_entries:
  "scored T d ws = Inr xs \<Longrightarrow> (s, w) \<in> set xs \<Longrightarrow>
     \<exists>v. vector_of T w = Inr v \<and> np_dot v d = Inr s"
proof (induction ws arbitrary: xs)
  case Nil
  then show ?case by simp
next
  case (Cons a ws)
  from Cons.prems(1) obtain v s' r where a: "vector_of T a = Inr v" "np_dot v d = Inr s'"
    and r: "scored T d ws = Inr r" and xs: "xs = (s', a) # r"
    by (auto split: sum.splits)
  from Cons.prems(2) xs consider "s = s'" "w = a" | "(s, w) \<in> set r" by auto
  then show ?case
  proof cases
    case 1
    with a show ?thesis by simp
  next
    case 2
    with Cons.IH [OF r] show ?thesis by simp
  qed
qed

lemma vector_of_row:
  assumes "vector_of T w = Inr v"
  shows "\<exists>i < length (vocabulary T). vocabulary T ! i = w \<and> i < length (embedding T) \<and>
    v = embedding T ! i"
proof -
  from assms obtain i where i: "index_of (vocabulary T) w = Some i" "i < length (embedding T)"
    "v = embedding T ! i"
    by (auto simp: vector_of_def split: option.splits if_splits)
  with index_of_bound [OF i(1)] show ?thesis by blast
qed

text \<open>
  Claim C4. For a direction of the table's dimension and candidates that are all in the
  vocabulary, the ranking returns; its scores are in ascending order (so every adjacent
  pair is non-decreasing); its words are the candidates, as a multiset: none dropped, none
  duplicated; and the score of every entry is the product of the direction with the row of
  the table that belongs to the entry's word.
\<close>

theorem C4_rank_sorted_permutation:
  assumes "table_inv T" and "length d = dimension T" and "set ws \<subseteq> set (vocabulary T)"
  shows "\<exists>out. rank_by_projection T d ws = Inr out \<and>
           sorted (map fst out) \<and> mset (map snd out) = mset ws \<and>
           (\<forall>(s, w) \<in> set out.
              \<exists>i < length (vocabulary T). vocabulary T ! i = w \<and>
                s = (\<Sum>(x, y)\<leftarrow>zip (embedding T ! i) d. x * y))"
proof -
  from scored_total [OF assms] obtain xs where xs: "scored T d ws = Inr xs" ..
  have perm: "mset (map snd (sort xs)) = mset (map snd xs)"
    by (metis mset_map mset_sort)
  have score: "\<exists>i < length (vocabulary T). vocabulary T ! i = w \<and>
      s = (\<Sum>(x, y)\<leftarrow>zip (embedding T ! i) d. x * y)" if "(s, w) \<in> set (sort xs)" for s w
  proof -
    from that have "(s, w) \<in> set xs" by simp
    from scored_entries [OF xs this] obtain v where v: "vector_of T w = Inr v" "np_dot v d = Inr s"
      by blast
    from vector_of_row [OF v(1)] obtain i where i: "i < length (vocabulary T)"
      "vocabulary T ! i = w" "v = embedding T ! i" by blast
    from v(2) have "s = (\<Sum>(x, y)\<leftarrow>zip v d. x * y)"
      by (simp add: np_dot_def split: if_splits)
    with i show ?thesis by blast
  qed
  have "rank_by_projection T d ws = Inr (sort xs)"
    using xs by (simp add: rank_by_projection_def)
  moreover have "sorted (map fst (sort xs))"
    by (simp add: sorted_lex_fst)
  moreover have "mset (map snd (sort xs)) = mset ws"
    using perm xs by (simp add: scored_words)
  ultimately show ?thesis using score by blast
qed

theorem C4_rank_sorted_permutation_witness:
  "rank_by_projection demo_table [- 1, 1] [''queen'', ''king''] =
     Inr [(0, ''king''), (2, ''queen'')] \<and>
   sorted (map fst [(0 :: real, ''king''), (2, ''queen'')]) \<and>
   mset (map snd [(0 :: real, ''king''), (2, ''queen'')]) = mset [''queen'', ''king'']"
proof -
  have r: "rank_by_projection demo_table [- 1, 1] [''queen'', ''king''] =
      Inr [(0, ''king''), (2, ''queen'')]"
    by (simp add: demo_eval rank_eval)
  have "length [- 1, 1 :: real] = dimension demo_table"
    and "set [''queen'', ''king''] \<subseteq> set (vocabulary demo_table)"
    by (simp_all add: demo_table_def)
  from C4_rank_sorted_permutation [OF table_inv_demo this]
  obtain out where "rank_by_projection demo_table [- 1, 1] [''queen'', ''king''] = Inr out"
    and "sorted (map fst out)" and "mset (map snd out) = mset [''queen'', ''king'']"
    by blast
  with r show ?thesis by simp
qed

text \<open>
  Claim C3, as stated: candidates with equal scores keep their input order. The code sorts
  the tuples (score, word), so a tie in the score is decided by the words: along the
  direction \<open>[1, 0]\<close> the words \<open>king\<close> and \<open>he\<close> both score \<open>1\<close>, \<open>king\<close> comes first in the
  input and \<open>he\<close> comes first in the output.
\<close>

theorem C3_input_order_counterexample:
  "rank_by_projection demo_table [1, 0] [''king'', ''he''] = Inr [(1, ''he''), (1, ''king'')]"
  by (simp add: demo_eval rank_eval less_eq_list_code less_list_code)

lemma sorted_lex_ties:
  fixes xs :: "(real \<times> string) list"
  assumes "sorted xs" and "i < j" and "j < length xs" and "fst (xs ! i) = fst (xs ! j)"
  shows "snd (xs ! i) \<le> snd (xs ! j)"
proof -
  from assms(1-3) have "xs ! i \<le> xs ! j"
    by (simp add: sorted_nth_mono)
  with assms(4) show ?thesis
    by (simp add: less_eq_prod_def)
qed

text \<open>
  Claim C3, amended. When two entries of the ranking have equal scores, the earlier one
  holds the smaller word (in the order of strings, character codes compared from the
  left), whatever the order of the candidates was.
\<close>

theorem C3_ties_in_word_order:
  assumes "rank_by_projection T d ws = Inr out"
    and "i < j" and "j < length out" and "fst (out ! i) = fst (out ! j)"
  shows "snd (out ! i) \<le> snd (out ! j)"
proof -
  from assms(1) obtain xs where "out = sort xs"
    by (auto simp: rank_by_projection_def split: sum.splits)
  then have "sorted out" by simp
  then show ?thesis using assms(2-4) by (rule sorted_lex_ties)
qed

theorem C3_ties_in_word_order_witness:
  "rank_by_projection demo_table [1, 0] [''king'', ''he''] = Inr [(1, ''he''), (1, ''king'')] \<and>
   ''he'' \<le> ''king''"
proof -
  have r: "rank_by_projection demo_table [1, 0] [''king'', ''he''] =
      Inr [(1, ''he''), (1, ''king'')]"
    by (simp add: demo_eval rank_eval less_eq_list_code less_list_code)
  from C3_ties_in_word_order [OF r, of 0 1] show ?thesis
    using r by simp
qed

text \<open>
  Claim C5. In the vocabulary he=[1,0], she=[0,1], king=[1,1], queen=[0,2]: the unnormalized
  \<open>from_pair\<close> of \<open>she\<close> and \<open>he\<close> is \<open>[-1, 1]\<close>; along it \<open>king\<close> scores \<open>0\<close> and \<open>queen\<close>
  scores \<open>2\<close>; and the ranking of the two candidates, given in either order, is \<open>king\<close>
  then \<open>queen\<close>.
\<close>

theorem C5_she_he_scenario:
  "from_pair demo_table False ''she'' ''he'' = Inr (Array [- 1, 1]) \<and>
   scored demo_table [- 1, 1] [''king''] = Inr [(0, ''king'')] \<and>
   scored demo_table [- 1, 1] [''queen''] = Inr [(2, ''queen'')] \<and>
   rank_by_projection demo_table [- 1, 1] [''king'', ''queen''] =
     Inr [(0, ''king''), (2, ''queen'')] \<and>
   rank_by_projection demo_table [- 1, 1] [''queen'', ''king''] =
     Inr [(0, ''king''), (2, ''queen'')]"
  by (simp add: demo_eval rank_eval from_pair_def)

subsection \<open>The direction of two groups: empty groups and zero norms\<close>

lemma np_add_not_empty_group: "np_add a v \<noteq> Inl EmptyGroupError"
  by (cases a) simp_all

lemma vector_of_not_empty_group: "vector_of T w \<noteq> Inl EmptyGroupError"
  by (simp add: vector_of_def split: option.splits)

lemma sum_from_not_empty_group: "sum_from T acc ws \<noteq> Inl EmptyGroupError"
  using np_add_not_empty_group vector_of_not_empty_group
  by (induction ws arbitrary: acc) (auto split: sum.splits)

lemma np_sub_NaN_right: "np_sub a NaN = Inr NaN"
  by (cases a) simp_all

lemma np_sub_not_empty_group: "np_sub a b \<noteq> Inl EmptyGroupError"
  by (cases a; cases b) simp_all

text \<open>
  Claim C2, as stated: \<open>from_groups\<close> fails with \<open>EmptyGroupError\<close> on an empty group. The
  cell has no such check: the sum of no vectors is the number \<open>0\<close>, its norm is \<open>0.0\<close>, the
  division gives \<open>nan\<close>, and the cell ends with a direction of \<open>nan\<close>s and no error.
\<close>

theorem C2_empty_group_counterexample:
  "from_groups demo_table [] [''he''] = Inr NaN"
  by (simp add: demo_eval groups_eval)

text \<open>
  Claim C2, amended. With an empty group on either side, \<open>from_groups\<close> raises what the
  lookups and the sum of the other group raise, and otherwise returns \<open>nan\<close>; it fails with
  \<open>EmptyGroupError\<close> on no input at all.
\<close>

theorem C2_empty_group_gives_nan:
  "from_groups T [] g = (case group_sum T g of Inl e \<Rightarrow> Inl e | Inr s \<Rightarrow> Inr NaN) \<and>
   from_groups T g [] = (case group_sum T g of Inl e \<Rightarrow> Inl e | Inr s \<Rightarrow> Inr NaN) \<and>
   from_groups T g_pos g_neg \<noteq> Inl EmptyGroupError"
proof (intro conjI)
  show "from_groups T [] g = (case group_sum T g of Inl e \<Rightarrow> Inl e | Inr s \<Rightarrow> Inr NaN)"
    by (simp add: from_groups_def unit_centroids_def group_sum_def split: sum.splits)
  show "from_groups T g [] = (case group_sum T g of Inl e \<Rightarrow> Inl e | Inr s \<Rightarrow> Inr NaN)"
    by (simp add: from_groups_def unit_centroids_def group_sum_def np_sub_NaN_right
        split: sum.splits)
  show "from_groups T g_pos g_neg \<noteq> Inl EmptyGroupError"
    using sum_from_not_empty_group [of T "Scalar 0"] np_sub_not_empty_group
    by (auto simp: from_groups_def unit_centroids_def group_sum_def split: sum.splits)
qed

text \<open>
  Claim C9. There are two non-empty groups of words of the vocabulary for which the last
  normalization divides by a zero norm: the groups \<open>king\<close> and \<open>he, she\<close> are different and
  have the same unit centroid, the difference of the centroids is the zero vector, its norm
  is \<open>0\<close>, and the cell returns \<open>nan\<close>, which is none of the errors; a group paired with
  itself does the same.
\<close>

theorem C9_zero_difference_is_nan:
  "unit_centroids demo_table [''king''] [''he'', ''she''] =
     Inr (Array [1 / sqrt 2, 1 / sqrt 2], Array [1 / sqrt 2, 1 / sqrt 2]) \<and>
   np_sub (Array [1 / sqrt 2, 1 / sqrt 2]) (Array [1 / sqrt 2, 1 / sqrt 2]) = Inr (Array [0, 0]) \<and>
   l2norm [0, 0] = 0 \<and>
   from_groups demo_table [''king''] [''he'', ''she''] = Inr NaN \<and>
   from_groups demo_table [''he''] [''he''] = Inr NaN"
  by (simp add: demo_eval groups_eval)

subsection \<open>Norms\<close>

lemma sumsq_nonneg: "0 \<le> (\<Sum>x\<leftarrow>v. x * x :: real)"
  by (induction v) auto

lemma l2norm_nonneg: "0 \<le> l2norm v"
  by (simp add: l2norm_def sumsq_nonneg)

lemma sumsq_zero_iff: "(\<Sum>x\<leftarrow>v. x * x :: real) = 0 \<longleftrightarrow> (\<forall>x \<in> set v. x = 0)"
proof (induction v)
  case Nil
  then show ?case by simp
next
  case (Cons a v)
  have "0 \<le> a * a" by simp
  with sumsq_nonneg [of v] have "a * a + (\<Sum>x\<leftarrow>v. x * x) = 0 \<longleftrightarrow> a * a = 0 \<and> (\<Sum>x\<leftarrow>v. x * x) = 0"
    by (simp add: add_nonneg_eq_0_iff)
  with Cons show ?case by simp
qed

lemma l2norm_zero_iff: "l2norm v = 0 \<longleftrightarrow> (\<forall>x \<in> set v. x = 0)"
  by (simp add: l2norm_def sumsq_zero_iff)

lemma sumsq_scale:
  "sum_list (map (\<lambda>x. x * x) (map ((*) c) v)) = c * c * (\<Sum>x\<leftarrow>v. x * x :: real)"
  by (induction v) (auto simp: algebra_simps)

lemma sumsq_div:
  "sum_list (map (\<lambda>x. x * x) (map (\<lambda>x. x / n) v)) = (\<Sum>x\<leftarrow>v. x * x :: real) / (n * n)"
  by (induction v) (auto simp: add_divide_distrib)

lemma l2norm_scale:
  assumes "0 \<le> c"
  shows "l2norm (map ((*) c) v) = c * l2norm v"
proof -
  have "l2norm (map ((*) c) v) = sqrt (c * c * (\<Sum>x\<leftarrow>v. x * x))"
    unfolding l2norm_def by (simp only: sumsq_scale)
  also have "\<dots> = c * l2norm v"
    using assms by (simp add: l2norm_def real_sqrt_mult)
  finally show ?thesis .
qed

lemma l2norm_neg: "l2norm (map uminus v) = l2norm v"
proof -
  have "sum_list (map (\<lambda>x. x * x) (map uminus v)) = (\<Sum>x\<leftarrow>v. x * x :: real)"
    by (induction v) auto
  then show ?thesis
    unfolding l2norm_def by (simp only:)
qed

lemma l2norm_spec_normalize:
  assumes "l2norm v \<noteq> 0"
  shows "l2norm (spec_normalize v) = 1"
proof -
  let ?s = "\<Sum>x\<leftarrow>v. x * x"
  have s: "l2norm v * l2norm v = ?s"
    by (simp add: l2norm_def sumsq_nonneg)
  from assms s have "?s \<noteq> 0" by auto
  have "sum_list (map (\<lambda>x. x * x) (map (\<lambda>x. x / l2norm v) v)) = ?s / (l2norm v * l2norm v)"
    by (rule sumsq_div)
  also have "\<dots> = 1" using s \<open>?s \<noteq> 0\<close> by simp
  finally have "sqrt (sum_list (map (\<lambda>x. x * x) (map (\<lambda>x. x / l2norm v) v))) = 1"
    by simp
  then show ?thesis
    unfolding l2norm_def spec_normalize_def .
qed

lemma length_vsub: "length (vsub a b) = min (length a) (length b)"
  by (simp add: vsub_def)

lemma nth_vsub: "i < length a \<Longrightarrow> i < length b \<Longrightarrow> vsub a b ! i = a ! i - b ! i"
  by (simp add: vsub_def)

lemma vsub_eq_zero:
  assumes "length a = length b" and "l2norm (vsub a b) = 0"
  shows "a = b"
proof (rule nth_equalityI)
  show "length a = length b" by fact
  fix i assume i: "i < length a"
  with assms(1) have "vsub a b ! i \<in> set (vsub a b)"
    by (simp add: length_vsub)
  with assms(2) have "vsub a b ! i = 0"
    by (simp add: l2norm_zero_iff)
  with i assms(1) show "a ! i = b ! i"
    by (simp add: nth_vsub)
qed

subsection \<open>The cell against the spec's description\<close>

lemma length_vadd: "length (vadd a b) = min (length a) (length b)"
  by (simp add: vadd_def)

lemma vadd_assoc: "vadd (vadd u v) w = vadd u (vadd v w)"
proof (induction u arbitrary: v w)
  case Nil
  then show ?case by (simp add: vadd_def)
next
  case (Cons x u)
  then show ?case
    by (cases v; cases w) (simp_all add: vadd_def)
qed

lemma spec_sum_vadd_head:
  "spec_sum_vectors (vadd u v # vs) = vadd u (spec_sum_vectors (v # vs))"
  by (cases vs) (simp_all add: vadd_assoc)

lemma foldl_vadd_spec_sum: "foldl vadd u vs = spec_sum_vectors (u # vs)"
proof (induction vs arbitrary: u)
  case Nil
  then show ?case by simp
next
  case (Cons v vs)
  have "foldl vadd u (v # vs) = spec_sum_vectors (vadd u v # vs)"
    by (simp add: Cons.IH)
  then show ?case
    by (simp add: spec_sum_vadd_head)
qed

lemma length_spec_sum:
  "vs \<noteq> [] \<Longrightarrow> \<forall>v \<in> set vs. length v = n \<Longrightarrow> length (spec_sum_vectors vs) = n"
  by (induction vs rule: spec_sum_vectors.induct) (simp_all add: length_vadd)

lemma member_vectors_total:
  assumes "table_inv T"
  shows "set ws \<subseteq> set (vocabulary T) \<Longrightarrow>
    \<exists>vs. member_vectors T ws = Inr vs \<and> length vs = length ws \<and>
      (\<forall>v \<in> set vs. length v = dimension T)"
proof (induction ws)
  case Nil
  then show ?case by simp
next
  case (Cons w ws)
  then obtain vs where vs: "member_vectors T ws = Inr vs" "length vs = length ws"
      "\<forall>v \<in> set vs. length v = dimension T"
    by auto
  from Cons.prems assms obtain v where "vector_of T w = Inr v" "length v = dimension T"
    using vector_of_mem by force
  with vs show ?case by simp
qed

lemma sum_from_array:
  "member_vectors T ws = Inr vs \<Longrightarrow> \<forall>v \<in> set vs. length v = length u \<Longrightarrow>
     sum_from T (Array u) ws = Inr (Array (foldl vadd u vs))"
proof (induction ws arbitrary: u vs)
  case Nil
  then show ?case by simp
next
  case (Cons w ws)
  from Cons.prems(1) obtain v vs' where v: "vector_of T w = Inr v"
    and vs': "member_vectors T ws = Inr vs'" and vs: "vs = v # vs'"
    by (auto split: sum.splits)
  from Cons.prems(2) vs have len: "length v = length u" "\<forall>x \<in> set vs'. length x = length (vadd u v)"
    by (simp_all add: length_vadd)
  from Cons.IH [OF vs' len(2)] v len(1) vs show ?case
    by (simp add: vadd_def)
qed

lemma group_sum_nonempty:
  assumes "member_vectors T ws = Inr vs" and "ws \<noteq> []" and "\<forall>v \<in> set vs. length v = n"
  shows "group_sum T ws = Inr (Array (spec_sum_vectors vs))"
proof -
  from assms(2) obtain w ws' where ws: "ws = w # ws'"
    by (cases ws) auto
  with assms(1) obtain v vs' where v: "vector_of T w = Inr v"
    and vs': "member_vectors T ws' = Inr vs'" and vs: "vs = v # vs'"
    by (auto split: sum.splits)
  from assms(3) vs have "\<forall>x \<in> set vs'. length x = length v"
    by simp
  have "map ((+) 0) v = v"
    by (induction v) simp_all
  with sum_from_array [OF vs' \<open>\<forall>x \<in> set vs'. length x = length v\<close>] v ws vs show ?thesis
    by (simp add: group_sum_def foldl_vadd_spec_sum)
qed

lemma unit_Array_nonzero: "l2norm v \<noteq> 0 \<Longrightarrow> unit (Array v) = Array (spec_normalize v)"
  by (simp add: spec_normalize_def)

lemma np_sub_Array: "length a = length b \<Longrightarrow> np_sub (Array a) (Array b) = Inr (Array (vsub a b))"
  by (simp add: vsub_def)

lemma length_spec_normalize: "length (spec_normalize v) = length v"
  by (simp add: spec_normalize_def)

lemma from_groups_refines_spec:
  assumes inv: "table_inv T"
    and ne: "g_pos \<noteq> []" "g_neg \<noteq> []"
    and voc: "set g_pos \<subseteq> set (vocabulary T)" "set g_neg \<subseteq> set (vocabulary T)"
  shows "\<exists>ps ns. member_vectors T g_pos = Inr ps \<and> member_vectors T g_neg = Inr ns \<and>
     (l2norm (spec_sum_vectors ps) \<noteq> 0 \<and> l2norm (spec_sum_vectors ns) \<noteq> 0 \<and>
      spec_normalize (spec_sum_vectors ps) \<noteq> spec_normalize (spec_sum_vectors ns) \<longrightarrow>
        from_groups T g_pos g_neg = Inr (Array (spec_from_groups ps ns)) \<and>
        l2norm (spec_from_groups ps ns) = 1)"
proof -
  from member_vectors_total [OF inv voc(1)] obtain ps where ps:
    "member_vectors T g_pos = Inr ps" "length ps = length g_pos"
    "\<forall>v \<in> set ps. length v = dimension T" by blast
  from member_vectors_total [OF inv voc(2)] obtain ns where ns:
    "member_vectors T g_neg = Inr ns" "length ns = length g_neg"
    "\<forall>v \<in> set ns. length v = dimension T" by blast
  let ?sp = "spec_sum_vectors ps" and ?sn = "spec_sum_vectors ns"
  let ?cp = "spec_normalize ?sp" and ?cn = "spec_normalize ?sn"
  have sp: "group_sum T g_pos = Inr (Array ?sp)"
    using ps ne(1) by (intro group_sum_nonempty) auto
  have sn: "group_sum T g_neg = Inr (Array ?sn)"
    using ns ne(2) by (intro group_sum_nonempty) auto
  from ps ne(1) have "ps \<noteq> []" by auto
  then have lp: "length ?sp = dimension T" using ps(3) by (rule length_spec_sum)
  from ns ne(2) have "ns \<noteq> []" by auto
  then have ln: "length ?sn = dimension T" using ns(3) by (rule length_spec_sum)
  have len: "length ?cp = length ?cn"
    by (simp add: length_spec_normalize lp ln)
  {
    assume nz: "l2norm ?sp \<noteq> 0" "l2norm ?sn \<noteq> 0" and diff: "?cp \<noteq> ?cn"
    from diff len have dz: "l2norm (vsub ?cp ?cn) \<noteq> 0"
      using vsub_eq_zero by blast
    have uc: "unit_centroids T g_pos g_neg = Inr (Array ?cn, Array ?cp)"
      using sp sn nz by (simp add: unit_centroids_def unit_Array_nonzero del: unit.simps)
    have "from_groups T g_pos g_neg = Inr (Array (spec_from_groups ps ns))"
      using uc len dz
      by (simp add: from_groups_def np_sub_Array unit_Array_nonzero spec_from_groups_def
          del: unit.simps np_sub.simps)
    moreover have "l2norm (spec_from_groups ps ns) = 1"
      unfolding spec_from_groups_def using dz by (rule l2norm_spec_normalize)
    ultimately have "from_groups T g_pos g_neg = Inr (Array (spec_from_groups ps ns)) \<and>
        l2norm (spec_from_groups ps ns) = 1" ..
  }
  with ps(1) ns(1) show ?thesis by blast
qed

subsection \<open>Exchanging the two groups\<close>

lemma map2_minus_swap: "map2 (-) v u = map uminus (map2 (-) u (v :: real list))"
proof (induction u arbitrary: v)
  case Nil
  then show ?case by simp
next
  case (Cons x u)
  then show ?case by (cases v) simp_all
qed

lemma np_sub_swap: "np_sub b a = map_sum id np_neg (np_sub a b)"
proof (cases a)
  case NaN
  then show ?thesis by (simp add: np_sub_NaN_right)
next
  case (Scalar x)
  then show ?thesis by (cases b) (simp_all add: comp_def)
next
  case a: (Array u)
  show ?thesis
  proof (cases b)
    case NaN
    with a show ?thesis by simp
  next
    case (Scalar y)
    with a show ?thesis by (simp add: comp_def)
  next
    case b: (Array v)
    consider "length u = length v" | "length u \<noteq> length v" "length u = 1"
      | "length u \<noteq> length v" "length u \<noteq> 1" "length v = 1"
      | "length u \<noteq> length v" "length u \<noteq> 1" "length v \<noteq> 1"
      by blast
    then show ?thesis
    proof cases
      case 1
      have "map2 (-) v u = map uminus (map2 (-) u v)"
        by (rule map2_minus_swap)
      with 1 a b show ?thesis by simp
    next
      case 2
      with a b show ?thesis by (simp add: comp_def)
    next
      case 3
      with a b show ?thesis by (simp add: comp_def)
    next
      case 4
      with a b show ?thesis by simp
    qed
  qed
qed

lemma unit_np_neg: "unit (np_neg d) = np_neg (unit d)"
  by (cases d) (simp_all add: l2norm_neg comp_def)

lemma from_groups_swap:
  assumes "group_sum T g1 = Inr s1" and "group_sum T g2 = Inr s2"
  shows "from_groups T g2 g1 = map_sum id np_neg (from_groups T g1 g2)"
proof -
  have "np_sub (unit s2) (unit s1) = map_sum id np_neg (np_sub (unit s1) (unit s2))"
    by (rule np_sub_swap)
  with assms show ?thesis
    by (cases "np_sub (unit s1) (unit s2)")
      (simp_all add: from_groups_def unit_centroids_def unit_np_neg del: unit.simps)
qed

lemma group_sum_shape:
  assumes "table_inv T" and "set ws \<subseteq> set (vocabulary T)"
  shows "group_sum T ws = Inr (Scalar 0) \<or>
    (\<exists>v. group_sum T ws = Inr (Array v) \<and> length v = dimension T)"
proof (cases "ws = []")
  case True
  then show ?thesis by (simp add: group_sum_def)
next
  case False
  from member_vectors_total [OF assms] obtain vs where vs:
    "member_vectors T ws = Inr vs" "length vs = length ws"
    "\<forall>v \<in> set vs. length v = dimension T" by blast
  from vs(2) False have "vs \<noteq> []" by auto
  then have "length (spec_sum_vectors vs) = dimension T"
    using vs(3) by (rule length_spec_sum)
  moreover have "group_sum T ws = Inr (Array (spec_sum_vectors vs))"
    using vs(1) False vs(3) by (rule group_sum_nonempty)
  ultimately show ?thesis by blast
qed

lemma unit_shape:
  assumes "s = Scalar 0 \<or> (\<exists>v. s = Array v \<and> length v = n)"
  shows "unit s = NaN \<or> (\<exists>v. unit s = Array v \<and> length v = n)"
proof (cases s)
  case (Array v)
  with assms have "length v = n" by simp
  with Array show ?thesis by (cases "l2norm v = 0 \<and> v \<noteq> []") simp_all
qed (use assms in simp_all)

lemma np_sub_shape:
  assumes "a = NaN \<or> (\<exists>v. a = Array v \<and> length v = n)"
    and "b = NaN \<or> (\<exists>v. b = Array v \<and> length v = n)"
  shows "\<exists>r. np_sub a b = Inr r"
  using assms by (auto simp: np_sub_NaN_right)

text \<open>
  Claim C6. For groups of words of the vocabulary, \<open>from_groups\<close> of the groups exchanged is
  the componentwise negation of \<open>from_groups\<close>: whenever the direction is defined (an array,
  which is the case when the centroid differences are nonzero), the other one is the array
  of the negated components; where a zero norm is met, both are \<open>nan\<close>.
\<close>

theorem C6_from_groups_antisymmetric:
  assumes "table_inv T"
    and "set g1 \<subseteq> set (vocabulary T)" and "set g2 \<subseteq> set (vocabulary T)"
  shows "\<exists>r. from_groups T g1 g2 = Inr r \<and> from_groups T g2 g1 = Inr (np_neg r)"
proof -
  from group_sum_shape [OF assms(1,2)] obtain s1 where s1: "group_sum T g1 = Inr s1"
    "s1 = Scalar 0 \<or> (\<exists>v. s1 = Array v \<and> length v = dimension T)" by auto
  from group_sum_shape [OF assms(1,3)] obtain s2 where s2: "group_sum T g2 = Inr s2"
    "s2 = Scalar 0 \<or> (\<exists>v. s2 = Array v \<and> length v = dimension T)" by auto
  from np_sub_shape [OF unit_shape [OF s1(2)] unit_shape [OF s2(2)]]
  obtain d where d: "np_sub (unit s1) (unit s2) = Inr d" ..
  with s1(1) s2(1) have "from_groups T g1 g2 = Inr (unit d)"
    by (simp add: from_groups_def unit_centroids_def del: unit.simps)
  with from_groups_swap [OF s1(1) s2(1)] show ?thesis
    by simp
qed

theorem C6_from_groups_antisymmetric_witness:
  "from_groups demo_table [''she''] [''he''] = Inr (Array [- (1 / sqrt 2), 1 / sqrt 2]) \<and>
   from_groups demo_table [''he''] [''she''] = Inr (Array [1 / sqrt 2, - (1 / sqrt 2)])"
proof -
  have voc: "set [''she''] \<subseteq> set (vocabulary demo_table)"
      "set [''he''] \<subseteq> set (vocabulary demo_table)"
    by (simp_all add: demo_table_def)
  have r: "from_groups demo_table [''she''] [''he''] = Inr (Array [- (1 / sqrt 2), 1 / sqrt 2])"
    by (simp add: demo_eval groups_eval)
  from C6_from_groups_antisymmetric [OF table_inv_demo voc] r show ?thesis
    by simp
qed

subsection \<open>Scaling the vectors of a group\<close>

lemma np_add_scale:
  "np_add (np_scale c acc) (map ((*) c) v) = map_sum id (np_scale c) (np_add acc v)"
proof (cases acc)
  case NaN
  then show ?thesis by simp
next
  case (Scalar x)
  then show ?thesis by (simp add: comp_def algebra_simps)
next
  case (Array u)
  have m2: "map2 (+) (map ((*) c) u) (map ((*) c) v) = map ((*) c) (map2 (+) u v)"
  proof (induction u arbitrary: v)
    case Nil
    then show ?case by simp
  next
    case (Cons x u)
    then show ?case by (cases v) (simp_all add: algebra_simps)
  qed
  have hd_u: "length u = 1 \<Longrightarrow> hd (map ((*) c) u) = c * hd u"
    by (cases u) simp_all
  have hd_v: "length v = 1 \<Longrightarrow> hd (map ((*) c) v) = c * hd v"
    by (cases v) simp_all
  from Array show ?thesis
    by (simp add: m2 hd_u hd_v comp_def algebra_simps)
qed

lemma sum_from_scale:
  assumes "\<And>w. w \<in> set ws \<Longrightarrow>
      vector_of T' w = (case vector_of T w of Inl e \<Rightarrow> Inl e | Inr v \<Rightarrow> Inr (map ((*) c) v))"
  shows "sum_from T' (np_scale c acc) ws = map_sum id (np_scale c) (sum_from T acc ws)"
  using assms
proof (induction ws arbitrary: acc)
  case Nil
  then show ?case by simp
next
  case (Cons w ws)
  have w: "vector_of T' w = (case vector_of T w of Inl e \<Rightarrow> Inl e | Inr v \<Rightarrow> Inr (map ((*) c) v))"
    by (rule Cons.prems) simp
  have IH: "sum_from T' (np_scale c a) ws = map_sum id (np_scale c) (sum_from T a ws)" for a
    by (rule Cons.IH) (simp add: Cons.prems)
  show ?case
  proof (cases "vector_of T w")
    case (Inl e)
    with w show ?thesis by simp
  next
    case (Inr v)
    show ?thesis
    proof (cases "np_add acc v")
      case (Inl e)
      with Inr w np_add_scale [of c acc v] show ?thesis by simp
    next
      case r: (Inr a)
      with Inr w np_add_scale [of c acc v] IH [of a] show ?thesis by (simp add: id_def)
    qed
  qed
qed

lemma unit_np_scale: "0 < c \<Longrightarrow> unit (np_scale c s) = unit s"
proof (cases s)
  case NaN
  then show ?thesis by simp
next
  case (Scalar x)
  assume "0 < c"
  with Scalar show ?thesis by (simp add: abs_mult)
next
  case (Array v)
  assume c: "0 < c"
  then have n: "l2norm (map ((*) c) v) = c * l2norm v"
    by (simp add: l2norm_scale)
  from c Array show ?thesis
    by (simp add: n)
qed

lemma group_sum_scale:
  assumes "0 < c" and "\<And>w. w \<in> set ws \<Longrightarrow>
      vector_of T' w = (case vector_of T w of Inl e \<Rightarrow> Inl e | Inr v \<Rightarrow> Inr (map ((*) c) v))"
  shows "map_sum id unit (group_sum T' ws) = map_sum id unit (group_sum T ws)"
proof -
  have "sum_from T' (np_scale c (Scalar 0)) ws = map_sum id (np_scale c) (sum_from T (Scalar 0) ws)"
    using assms(2) by (rule sum_from_scale)
  then have "group_sum T' ws = map_sum id (np_scale c) (group_sum T ws)"
    by (simp add: group_sum_def)
  then show ?thesis
    using unit_np_scale [OF assms(1)]
    by (cases "group_sum T ws") (simp_all del: unit.simps)
qed

lemma unit_centroids_alt:
  "unit_centroids T g_pos g_neg =
     (case map_sum id unit (group_sum T g_neg) of
        Inl e \<Rightarrow> Inl e
      | Inr u0 \<Rightarrow>
          (case map_sum id unit (group_sum T g_pos) of
             Inl e \<Rightarrow> Inl e
           | Inr u1 \<Rightarrow> Inr (u0, u1)))"
  by (simp add: unit_centroids_def split: sum.splits del: unit.simps)

text \<open>
  Two tables that give the words of the positive group vectors differing by a factor
  \<open>a > 0\<close>, and the words of the negative group vectors differing by a factor \<open>b > 0\<close>,
  have the same \<open>from_groups\<close>, errors included.
\<close>

lemma from_groups_scale_tables:
  assumes "0 < a" and "0 < b"
    and pos: "\<And>w. w \<in> set g_pos \<Longrightarrow>
      vector_of T' w = (case vector_of T w of Inl e \<Rightarrow> Inl e | Inr v \<Rightarrow> Inr (map ((*) a) v))"
    and neg: "\<And>w. w \<in> set g_neg \<Longrightarrow>
      vector_of T' w = (case vector_of T w of Inl e \<Rightarrow> Inl e | Inr v \<Rightarrow> Inr (map ((*) b) v))"
  shows "from_groups T' g_pos g_neg = from_groups T g_pos g_neg"
proof -
  have "map_sum id unit (group_sum T' g_pos) = map_sum id unit (group_sum T g_pos)"
    using assms(1) pos by (rule group_sum_scale)
  moreover have "map_sum id unit (group_sum T' g_neg) = map_sum id unit (group_sum T g_neg)"
    using assms(2) neg by (rule group_sum_scale)
  ultimately have "unit_centroids T' g_pos g_neg = unit_centroids T g_pos g_neg"
    by (simp only: unit_centroids_alt)
  then show ?thesis
    by (simp only: from_groups_def)
qed

lemma vector_of_scale_words:
  "vector_of (scale_words c ws T) w =
     (if w \<in> set ws
      then (case vector_of T w of Inl e \<Rightarrow> Inl e | Inr v \<Rightarrow> Inr (map ((*) c) v))
      else vector_of T w)"
proof (cases "index_of (vocabulary T) w")
  case None
  then show ?thesis by (simp add: vector_of_def scale_words_def)
next
  case (Some i)
  from index_of_bound [OF Some] have i: "i < length (vocabulary T)" "vocabulary T ! i = w"
    by simp_all
  show ?thesis
  proof (cases "i < length (embedding T)")
    case True
    with i Some show ?thesis
      by (simp add: vector_of_def scale_words_def)
  next
    case False
    with i Some show ?thesis
      by (simp add: vector_of_def scale_words_def)
  qed
qed

lemma l2norm_pair: "l2norm [x, y] = sqrt (x * x + y * y)"
  by (simp add: l2norm_def)

lemma l2norm_7_24: "l2norm [7, 24] = 25"
  unfolding l2norm_pair by (rule real_sqrt_unique) simp_all

lemma l2norm_18_24: "l2norm [18 / 25, - (24 / 25)] = 6 / 5"
  unfolding l2norm_pair by (rule real_sqrt_unique) (simp_all add: power2_eq_square)

lemma l2norm_119_24: "l2norm [119 / 5, 24] = 169 / 5"
  unfolding l2norm_pair by (rule real_sqrt_unique) (simp_all add: power2_eq_square)

lemma l2norm_50_120: "l2norm [50 / 169, - (120 / 169)] = 130 / 169"
  unfolding l2norm_pair by (rule real_sqrt_unique) (simp_all add: power2_eq_square)

lemma l2norm_89: "l2norm [89 / 5, 0] = 89 / 5"
  unfolding l2norm_pair by (rule real_sqrt_unique) (simp_all add: power2_eq_square)

lemma l2norm_1_0: "l2norm [1, 0] = 1"
  by (simp add: l2norm_pair)

lemma overlap_lookup:
  "vector_of overlap_table ''a'' = Inr [1, 0]"
  "vector_of overlap_table ''b'' = Inr [6, 24]"
  "vector_of (scale_words (89 / 5) [''a''] overlap_table) ''a'' = Inr [89 / 5, 0]"
  "vector_of (scale_words (89 / 5) [''a''] overlap_table) ''b'' = Inr [6, 24]"
  by (simp_all add: vector_of_scale_words) (simp_all add: vector_of_def overlap_table_def)

text \<open>
  Claim C10, as stated: for every pair of non-empty groups, multiplying the vectors of one
  group by a positive number leaves the direction unchanged. A word of both groups is
  scaled in both sums: with a=[1,0] and b=[6,24], the groups \<open>a\<close> and \<open>a, b\<close> give
  \<open>[3/5, -4/5]\<close>, and after the vector of \<open>a\<close> is multiplied by \<open>89/5\<close> they give
  \<open>[5/13, -12/13]\<close>.
\<close>

theorem C10_shared_word_counterexample:
  "from_groups overlap_table [''a''] [''a'', ''b''] = Inr (Array [3 / 5, - (4 / 5)]) \<and>
   from_groups (scale_words (89 / 5) [''a''] overlap_table) [''a''] [''a'', ''b''] =
     Inr (Array [5 / 13, - (12 / 13)])"
proof
  have "unit_centroids overlap_table [''a''] [''a'', ''b''] =
      Inr (Array [7 / 25, 24 / 25], Array [1, 0])"
    by (simp add: unit_centroids_def group_sum_def overlap_lookup l2norm_7_24 l2norm_1_0)
  then show "from_groups overlap_table [''a''] [''a'', ''b''] = Inr (Array [3 / 5, - (4 / 5)])"
    by (simp add: from_groups_def l2norm_18_24)
next
  have "unit_centroids (scale_words (89 / 5) [''a''] overlap_table) [''a''] [''a'', ''b''] =
      Inr (Array [119 / 169, 120 / 169], Array [1, 0])"
    by (simp add: unit_centroids_def group_sum_def overlap_lookup l2norm_119_24 l2norm_89)
  then show "from_groups (scale_words (89 / 5) [''a''] overlap_table) [''a''] [''a'', ''b''] =
      Inr (Array [5 / 13, - (12 / 13)])"
    by (simp add: from_groups_def l2norm_50_120)
qed

lemma vector_of_scale_one:
  "vector_of T w = (case vector_of T w of Inl e \<Rightarrow> Inl e | Inr v \<Rightarrow> Inr (map ((*) 1) v))"
proof (cases "vector_of T w")
  case (Inl e)
  then show ?thesis by simp
next
  case (Inr v)
  have "map ((*) 1) v = v"
    by (induction v) simp_all
  with Inr show ?thesis by simp
qed

text \<open>
  Claim C10, amended. For every positive \<open>c\<close> and every pair of groups that have no word
  in common, multiplying the vector of every word of one group by \<open>c\<close> leaves
  \<open>from_groups\<close> unchanged, errors included: the group's sum and its norm are both
  multiplied by \<open>c\<close>, so its unit centroid is the same.
\<close>

theorem C10_scale_disjoint_groups:
  assumes "0 < c" and "set g_pos \<inter> set g_neg = {}"
  shows "from_groups (scale_words c g_pos T) g_pos g_neg = from_groups T g_pos g_neg \<and>
         from_groups (scale_words c g_neg T) g_pos g_neg = from_groups T g_pos g_neg"
proof
  show "from_groups (scale_words c g_pos T) g_pos g_neg = from_groups T g_pos g_neg"
  proof (rule from_groups_scale_tables [where a = c and b = 1])
    show "0 < c" by fact
    show "0 < (1 :: real)" by simp
  next
    fix w assume "w \<in> set g_pos"
    then show "vector_of (scale_words c g_pos T) w =
        (case vector_of T w of Inl e \<Rightarrow> Inl e | Inr v \<Rightarrow> Inr (map ((*) c) v))"
      by (simp add: vector_of_scale_words)
  next
    fix w assume "w \<in> set g_neg"
    with assms(2) have "w \<notin> set g_pos" by blast
    then have "vector_of (scale_words c g_pos T) w = vector_of T w"
      by (simp add: vector_of_scale_words)
    then show "vector_of (scale_words c g_pos T) w =
        (case vector_of T w of Inl e \<Rightarrow> Inl e | Inr v \<Rightarrow> Inr (map ((*) 1) v))"
      using vector_of_scale_one [of T w] by (simp only:)
  qed
  show "from_groups (scale_words c g_neg T) g_pos g_neg = from_groups T g_pos g_neg"
  proof (rule from_groups_scale_tables [where a = 1 and b = c])
    show "0 < c" by fact
    show "0 < (1 :: real)" by simp
  next
    fix w assume "w \<in> set g_neg"
    then show "vector_of (scale_words c g_neg T) w =
        (case vector_of T w of Inl e \<Rightarrow> Inl e | Inr v \<Rightarrow> Inr (map ((*) c) v))"
      by (simp add: vector_of_scale_words)
  next
    fix w assume "w \<in> set g_pos"
    with assms(2) have "w \<notin> set g_neg" by blast
    then have "vector_of (scale_words c g_neg T) w = vector_of T w"
      by (simp add: vector_of_scale_words)
    then show "vector_of (scale_words c g_neg T) w =
        (case vector_of T w of Inl e \<Rightarrow> Inl e | Inr v \<Rightarrow> Inr (map ((*) 1) v))"
      using vector_of_scale_one [of T w] by (simp only:)
  qed
qed

theorem C10_scale_disjoint_groups_witness:
  "vector_of demo_table ''she'' = Inr [0, 1] \<and>
   vector_of (scale_words 3 [''she''] demo_table) ''she'' = Inr [0, 3] \<and>
   vector_of (scale_words 3 [''she''] demo_table) ''he'' = Inr [1, 0] \<and>
   from_groups (scale_words 3 [''she''] demo_table) [''she''] [''he''] =
     from_groups demo_table [''she''] [''he'']"
proof -
  have "set [''she''] \<inter> set [''he''] = {}" by simp
  with C10_scale_disjoint_groups [of 3 "[''she'']" "[''he'']" demo_table]
  have "from_groups (scale_words 3 [''she''] demo_table) [''she''] [''he''] =
      from_groups demo_table [''she''] [''he'']"
    by simp
  then show ?thesis
    by (simp add: vector_of_scale_words) (simp add: demo_eval)
qed

subsection \<open>The direction of two groups: value and norm\<close>

lemma sqrt2_bounds: "1.4125 \<le> sqrt 2" "sqrt 2 \<le> 1.416"
proof -
  show "1.4125 \<le> sqrt 2"
    by (rule real_le_rsqrt) (simp add: power2_eq_square)
  show "sqrt 2 \<le> 1.416"
    by (rule real_le_lsqrt) (simp_all add: power2_eq_square)
qed

lemma inv_sqrt2_bounds: "0.706 \<le> 1 / sqrt 2" "1 / sqrt 2 \<le> 0.708"
proof -
  have pos: "0 < sqrt 2" by simp
  from sqrt2_bounds(2) have "0.706 * sqrt 2 \<le> 1" by simp
  then show "0.706 \<le> 1 / sqrt 2"
    using pos by (simp add: pos_le_divide_eq)
  from sqrt2_bounds(1) have "1 \<le> 0.708 * sqrt 2" by simp
  then show "1 / sqrt 2 \<le> 0.708"
    using pos by (simp add: pos_divide_le_eq)
qed

lemma close_to_707:
  fixes x :: real
  assumes "0.706 \<le> x" and "x \<le> 0.708"
  shows "\<bar>- x - (- 0.707)\<bar> \<le> 0.001" and "\<bar>x - 0.707\<bar> \<le> 0.001"
  using assms by linarith+

text \<open>
  Claim C1, as stated: for all non-empty groups of words of the vocabulary the result is the
  two-stage normalized difference and has norm 1. With the same group on both sides the unit
  centroids coincide, the last division is by a zero norm, and the cell returns \<open>nan\<close>, not
  a vector of norm 1.
\<close>

theorem C1_same_group_counterexample:
  "from_groups demo_table [''she''] [''she''] = Inr NaN"
  by (simp add: demo_eval groups_eval)

text \<open>
  Claim C1, amended. For non-empty groups of words of the vocabulary whose sums are nonzero
  and whose unit centroids differ, the cell returns the spec's computation on the member
  vectors (sum each group, normalize each sum, subtract the negative group's unit centroid
  from the positive group's, normalize the difference), and that vector has Euclidean norm
  1. With she=[0,1] and he=[1,0] the direction of the groups \<open>she\<close> and \<open>he\<close> is
  \<open>[-1/sqrt 2, 1/sqrt 2]\<close>, within \<open>0.001\<close> of \<open>[-0.707, 0.707]\<close> in each component.
\<close>

theorem C1_from_groups_two_stage:
  "(table_inv T \<and> g_pos \<noteq> [] \<and> g_neg \<noteq> [] \<and>
    set g_pos \<subseteq> set (vocabulary T) \<and> set g_neg \<subseteq> set (vocabulary T) \<longrightarrow>
    (\<exists>ps ns. member_vectors T g_pos = Inr ps \<and> member_vectors T g_neg = Inr ns \<and>
       (l2norm (spec_sum_vectors ps) \<noteq> 0 \<and> l2norm (spec_sum_vectors ns) \<noteq> 0 \<and>
        spec_normalize (spec_sum_vectors ps) \<noteq> spec_normalize (spec_sum_vectors ns) \<longrightarrow>
          from_groups T g_pos g_neg = Inr (Array (spec_from_groups ps ns)) \<and>
          l2norm (spec_from_groups ps ns) = 1))) \<and>
   from_groups demo_table [''she''] [''he''] = Inr (Array [- (1 / sqrt 2), 1 / sqrt 2]) \<and>
   \<bar>- (1 / sqrt 2) - (- 0.707)\<bar> \<le> 0.001 \<and> \<bar>1 / sqrt 2 - 0.707\<bar> \<le> 0.001"
proof (intro conjI impI)
  assume "table_inv T \<and> g_pos \<noteq> [] \<and> g_neg \<noteq> [] \<and>
    set g_pos \<subseteq> set (vocabulary T) \<and> set g_neg \<subseteq> set (vocabulary T)"
  then show "\<exists>ps ns. member_vectors T g_pos = Inr ps \<and> member_vectors T g_neg = Inr ns \<and>
       (l2norm (spec_sum_vectors ps) \<noteq> 0 \<and> l2norm (spec_sum_vectors ns) \<noteq> 0 \<and>
        spec_normalize (spec_sum_vectors ps) \<noteq> spec_normalize (spec_sum_vectors ns) \<longrightarrow>
          from_groups T g_pos g_neg = Inr (Array (spec_from_groups ps ns)) \<and>
          l2norm (spec_from_groups ps ns) = 1)"
    using from_groups_refines_spec by blast
next
  show "from_groups demo_table [''she''] [''he''] = Inr (Array [- (1 / sqrt 2), 1 / sqrt 2])"
    by (simp add: demo_eval groups_eval)
next
  show "\<bar>- (1 / sqrt 2) - (- 0.707)\<bar> \<le> 0.001"
    using inv_sqrt2_bounds by (rule close_to_707)
next
  show "\<bar>1 / sqrt 2 - 0.707\<bar> \<le> 0.001"
    using inv_sqrt2_bounds by (rule close_to_707)
qed

theorem C1_from_groups_two_stage_witness:
  "member_vectors demo_table [''she''] = Inr [[0, 1]] \<and>
   member_vectors demo_table [''he''] = Inr [[1, 0]] \<and>
   from_groups demo_table [''she''] [''he''] = Inr (Array (spec_from_groups [[0, 1]] [[1, 0]])) \<and>
   l2norm (spec_from_groups [[0, 1]] [[1, 0]]) = 1"
proof -
  have mv: "member_vectors demo_table [''she''] = Inr [[0, 1]]"
      "member_vectors demo_table [''he''] = Inr [[1, 0]]"
    by (simp_all add: demo_table_def vector_of_def)
  have hyp: "table_inv demo_table \<and> [''she''] \<noteq> [] \<and> [''he''] \<noteq> [] \<and>
      set [''she''] \<subseteq> set (vocabulary demo_table) \<and> set [''he''] \<subseteq> set (vocabulary demo_table)"
    using table_inv_demo by (simp add: demo_table_def)
  have nz: "l2norm (spec_sum_vectors [[0, 1]]) \<noteq> 0 \<and> l2norm (spec_sum_vectors [[1, 0]]) \<noteq> 0 \<and>
      spec_normalize (spec_sum_vectors [[0, 1]]) \<noteq> spec_normalize (spec_sum_vectors [[1, 0]])"
    by (simp add: l2norm_def spec_normalize_def)
  from C1_from_groups_two_stage [of demo_table "[''she'']" "[''he'']"] hyp
  obtain ps ns where "member_vectors demo_table [''she''] = Inr ps"
    and "member_vectors demo_table [''he''] = Inr ns"
    and imp: "l2norm (spec_sum_vectors ps) \<noteq> 0 \<and> l2norm (spec_sum_vectors ns) \<noteq> 0 \<and>
        spec_normalize (spec_sum_vectors ps) \<noteq> spec_normalize (spec_sum_vectors ns) \<longrightarrow>
          from_groups demo_table [''she''] [''he''] = Inr (Array (spec_from_groups ps ns)) \<and>
          l2norm (spec_from_groups ps ns) = 1"
    by blast
  with mv have "ps = [[0, 1]]" "ns = [[1, 0]]" by simp_all
  with imp nz mv show ?thesis by blast
qed

subsection \<open>The analogy finder\<close>

lemma unordered_pairs_mem:
  "(x, y) \<in> set (unordered_pairs xs) \<Longrightarrow> x \<in> set xs \<and> y \<in> set xs"
  by (induction xs) auto

lemma unordered_pairs_distinct:
  "distinct (map f xs) \<Longrightarrow> (x, y) \<in> set (unordered_pairs xs) \<Longrightarrow> f x \<noteq> f y"
proof (induction xs)
  case Nil
  then show ?case by simp
next
  case (Cons z zs)
  from Cons.prems(2) consider "x = z" "y \<in> set zs" | "(x, y) \<in> set (unordered_pairs zs)"
    by auto
  then show ?case
  proof cases
    case 1
    with Cons.prems(1) show ?thesis by auto
  next
    case 2
    with Cons show ?thesis by simp
  qed
qed

lemma unordered_pairs_not_reversed:
  "distinct (map f xs) \<Longrightarrow> (x, y) \<in> set (unordered_pairs xs) \<Longrightarrow>
     (x', y') \<in> set (unordered_pairs xs) \<Longrightarrow> f x' = f y \<Longrightarrow> f y' \<noteq> f x"
proof (induction xs)
  case Nil
  then show ?case by simp
next
  case (Cons z zs)
  from Cons.prems(1) have fz: "f z \<notin> f ` set zs" and dz: "distinct (map f zs)"
    by simp_all
  from Cons.prems(2) consider (a) "x = z" "y \<in> set zs" | (b) "(x, y) \<in> set (unordered_pairs zs)"
    by auto
  then show ?case
  proof cases
    case a
    from Cons.prems(3) consider "x' = z" "y' \<in> set zs" | "(x', y') \<in> set (unordered_pairs zs)"
      by auto
    then show ?thesis
    proof cases
      case 1
      with a fz Cons.prems(4) show ?thesis by auto
    next
      case 2
      then have "y' \<in> set zs" using unordered_pairs_mem by fast
      with a fz show ?thesis by (metis imageI)
    qed
  next
    case b
    then have xy: "x \<in> set zs" "y \<in> set zs" using unordered_pairs_mem by fast+
    from Cons.prems(3) consider "x' = z" "y' \<in> set zs" | "(x', y') \<in> set (unordered_pairs zs)"
      by auto
    then show ?thesis
    proof cases
      case 1
      with xy fz Cons.prems(4) show ?thesis by auto
    next
      case 2
      from Cons.IH [OF dz b 2 Cons.prems(4)] show ?thesis .
    qed
  qed
qed

lemma unordered_pairs_unique:
  assumes "distinct (map f xs)"
    and "(x, y) \<in> set (unordered_pairs xs)" and "(x', y') \<in> set (unordered_pairs xs)"
    and "{f x, f y} = {f x', f y'}"
  shows "(x, y) = (x', y')"
proof -
  from assms(1) have inj: "inj_on f (set xs)"
    by (simp add: distinct_map)
  from assms(2,3) have mem: "x \<in> set xs" "y \<in> set xs" "x' \<in> set xs" "y' \<in> set xs"
    using unordered_pairs_mem by fast+
  from assms(4) consider "f x = f x'" "f y = f y'" | "f x = f y'" "f y = f x'"
    by (auto simp: doubleton_eq_iff)
  then show ?thesis
  proof cases
    case 1
    with inj mem show ?thesis by (simp add: inj_on_eq_iff)
  next
    case 2
    with unordered_pairs_not_reversed [OF assms(1,2,3)] show ?thesis by simp
  qed
qed

lemma orient_words:
  assumes "orient r p = (a, b, d)"
  shows "{fst (fst p), fst (snd p)} = {a, b}"
  using assms by (cases p) (auto simp: orient_def split: if_splits)

lemma candidate_pool_distinct:
  assumes "distinct (vocabulary T)"
  shows "distinct (map fst (candidate_pool T K))"
proof -
  have "map fst (zip (vocabulary T) (embedding T)) =
      take (min (length (vocabulary T)) (length (embedding T))) (vocabulary T)"
    by (rule map_fst_zip_take)
  with assms have "distinct (map fst (zip (vocabulary T) (embedding T)))"
    by (simp only: distinct_take)
  then have "distinct (take K (map fst (zip (vocabulary T) (embedding T))))"
    by (rule distinct_take)
  then show ?thesis
    by (simp only: candidate_pool_def take_map)
qed

lemma analogy_finder_source:
  assumes "analogy_finder T r K st dt = Inr out" and "t \<in> set out"
  shows "\<exists>p \<in> set (unordered_pairs (candidate_pool T K)). different_words p \<and> orient r p = t"
  using assms by (auto simp: analogy_finder_def split: if_splits)

text \<open>
  Claim C7. For every reference direction of the table's dimension, every pool bound \<open>K\<close>
  and both thresholds, the analogy finder returns, its output holds no pair of a word with
  itself, and it never holds both orientations of one pair of words.
\<close>

theorem C7_analogy_pairs_once:
  assumes "table_inv T" and "length r = dimension T"
  shows "\<exists>out. analogy_finder T r K sim_thresh dist_thresh = Inr out \<and>
     (\<forall>a b d. (a, b, d) \<in> set out \<longrightarrow> a \<noteq> b) \<and>
     (\<forall>a b d d'. (a, b, d) \<in> set out \<longrightarrow> (b, a, d') \<notin> set out)"
proof -
  from assms(2) obtain out where out: "analogy_finder T r K sim_thresh dist_thresh = Inr out"
    by (simp add: analogy_finder_def)
  from assms(1) have dist: "distinct (map fst (candidate_pool T K))"
    by (simp add: table_inv_def candidate_pool_distinct)
  have ne: "a \<noteq> b" if "(a, b, d) \<in> set out" for a b d
  proof -
    from analogy_finder_source [OF out that] obtain p
      where p: "different_words p" "orient r p = (a, b, d)" by blast
    from orient_words [OF p(2)] p(1) show ?thesis
      by (auto simp: different_words_def doubleton_eq_iff)
  qed
  have once: "(b, a, d') \<notin> set out" if t: "(a, b, d) \<in> set out" for a b d d'
  proof
    assume t': "(b, a, d') \<in> set out"
    from analogy_finder_source [OF out t] obtain x y
      where p: "(x, y) \<in> set (unordered_pairs (candidate_pool T K))"
        "orient r (x, y) = (a, b, d)"
      by force
    from analogy_finder_source [OF out t'] obtain x' y'
      where p': "(x', y') \<in> set (unordered_pairs (candidate_pool T K))"
        "orient r (x', y') = (b, a, d')"
      by force
    from orient_words [OF p(2)] have "{fst x, fst y} = {a, b}" by simp
    moreover from orient_words [OF p'(2)] have "{fst x', fst y'} = {b, a}" by simp
    ultimately have "{fst x, fst y} = {fst x', fst y'}"
      by (simp only: insert_commute)
    with dist p(1) p'(1) have "(x, y) = (x', y')"
      by (rule unordered_pairs_unique)
    then have "orient r (x, y) = orient r (x', y')"
      by (simp only:)
    then have "(a, b, d) = (b, a, d')"
      by (simp only: p(2) p'(2))
    then have "a = b" by (rule Pair_inject)
    with ne [OF t] show False by blast
  qed
  from out ne once show ?thesis by blast
qed

theorem C7_analogy_pairs_once_witness:
  "analogy_finder demo_table [- 1, 1] 2 (99 / 100) (1 / 2) = Inr [(''she'', ''he'', [- 1, 1])] \<and>
   ''she'' \<noteq> ''he''"
proof -
  have len: "length [- 1, 1 :: real] = dimension demo_table"
    by (simp add: demo_table_def)
  have r: "analogy_finder demo_table [- 1, 1] 2 (99 / 100) (1 / 2) = Inr [(''she'', ''he'', [- 1, 1])]"
    by (simp add: analogy_finder_def demo_table_def candidate_pool_def different_words_def
        orient_def accepted_def analogy_key_def dot_def vsub_def cosine_similarity_def
        magnitude_gap_def l2norm_def)
  from C7_analogy_pairs_once [OF table_inv_demo len, of 2 "99 / 100" "1 / 2"] r
  show ?thesis by auto
qed

end
